theory Spec2Isabelle
  imports Main "HOL-Library.Word"
begin

section \<open>Host values: strings and numbers\<close>

text \<open>
  A string of the library is a sequence of 16-bit code units. \<open>js\<close> embeds a literal
  written with 8-bit characters, which is how every literal of the source is written.
\<close>

type_synonym jschar = "16 word"
type_synonym jsstring = "jschar list"

definition js :: "string \<Rightarrow> jsstring" where
  "js s = map of_char s"

text \<open>
  A number is \<open>NaN\<close> or a value. Every value the validators compute is an integer far
  below \<open>2 ^ 53\<close> (a sum of ten products of a digit and a weight of at most 11, or a
  time stamp in milliseconds), so the value is an exact \<open>int\<close>.
\<close>

datatype jsnum = NaN | Num int

fun js_add :: "jsnum \<Rightarrow> jsnum \<Rightarrow> jsnum" where
  "js_add (Num a) (Num b) = Num (a + b)"
| "js_add _ _ = NaN"

fun js_sub :: "jsnum \<Rightarrow> jsnum \<Rightarrow> jsnum" where
  "js_sub (Num a) (Num b) = Num (a - b)"
| "js_sub _ _ = NaN"

fun js_mul :: "jsnum \<Rightarrow> jsnum \<Rightarrow> jsnum" where
  "js_mul (Num a) (Num b) = Num (a * b)"
| "js_mul _ _ = NaN"

text \<open>\<open>%\<close> truncates: the result has the sign of the dividend; a zero divisor gives \<open>NaN\<close>.\<close>

fun js_rem :: "jsnum \<Rightarrow> jsnum \<Rightarrow> jsnum" where
  "js_rem (Num a) (Num b) = (if b = 0 then NaN else Num (sgn a * (\<bar>a\<bar> mod \<bar>b\<bar>)))"
| "js_rem _ _ = NaN"

text \<open>\<open>===\<close>, \<open>!==\<close> and \<open>>\<close> on numbers: every comparison with \<open>NaN\<close> is false, so \<open>!==\<close> is true.\<close>

fun js_eq :: "jsnum \<Rightarrow> jsnum \<Rightarrow> bool" where
  "js_eq (Num a) (Num b) = (a = b)"
| "js_eq _ _ = False"

definition js_neq :: "jsnum \<Rightarrow> jsnum \<Rightarrow> bool" where
  "js_neq a b = (\<not> js_eq a b)"

fun js_gt :: "jsnum \<Rightarrow> jsnum \<Rightarrow> bool" where
  "js_gt (Num a) (Num b) = (a > b)"
| "js_gt _ _ = False"

section \<open>Character classes\<close>

text \<open>\<open>\d\<close> and \<open>[0-9]\<close>.\<close>

definition is_digit :: "jschar \<Rightarrow> bool" where
  "is_digit c = (0x30 \<le> c \<and> c \<le> 0x39)"

text \<open>\<open>[1-9]\<close>, \<open>[2-5]\<close> and \<open>[6-9]\<close>.\<close>

definition in_1_9 :: "jschar \<Rightarrow> bool" where
  "in_1_9 c = (0x31 \<le> c \<and> c \<le> 0x39)"

definition in_2_5 :: "jschar \<Rightarrow> bool" where
  "in_2_5 c = (0x32 \<le> c \<and> c \<le> 0x35)"

definition in_6_9 :: "jschar \<Rightarrow> bool" where
  "in_6_9 c = (0x36 \<le> c \<and> c \<le> 0x39)"

text \<open>\<open>[a-zA-Z]\<close>.\<close>

definition is_alpha :: "jschar \<Rightarrow> bool" where
  "is_alpha c = ((0x61 \<le> c \<and> c \<le> 0x7A) \<or> (0x41 \<le> c \<and> c \<le> 0x5A))"

text \<open>
  \<open>[-0-9a-zA-Z.+_]\<close>. The filter of \<open>email\<close> carries the flag \<open>i\<close>; its classes hold
  both cases of every letter already, and no code unit outside ASCII is folded onto an
  ASCII one, so the flag changes nothing.
\<close>

definition is_email_char :: "jschar \<Rightarrow> bool" where
  "is_email_char c =
     (c = 0x2D \<or> is_digit c \<or> is_alpha c \<or> c = 0x2E \<or> c = 0x2B \<or> c = 0x5F)"

text \<open>\<open>\s\<close>: the white space and line terminator code units.\<close>

definition is_space :: "jschar \<Rightarrow> bool" where
  "is_space c =
     (c = 0x09 \<or> c = 0x0A \<or> c = 0x0B \<or> c = 0x0C \<or> c = 0x0D \<or> c = 0x20 \<or> c = 0xA0
      \<or> c = 0x1680 \<or> (0x2000 \<le> c \<and> c \<le> 0x200A) \<or> c = 0x2028 \<or> c = 0x2029
      \<or> c = 0x202F \<or> c = 0x205F \<or> c = 0x3000 \<or> c = 0xFEFF)"

text \<open>\<open>.\<close>: any code unit but a line terminator.\<close>

definition is_dot :: "jschar \<Rightarrow> bool" where
  "is_dot c = (c \<noteq> 0x0A \<and> c \<noteq> 0x0D \<and> c \<noteq> 0x2028 \<and> c \<noteq> 0x2029)"

section \<open>Regular expressions\<close>

text \<open>
  The patterns of the validators that are anchored at both ends (\<open>^...$\<close>) and have no
  back reference are terms of \<open>re\<close>; \<open>regex.test(input)\<close> is \<open>matches\<close>, by derivatives.
\<close>

datatype re = Never | Empty | Cls "jschar \<Rightarrow> bool" | Alt re re | Seq re re | Rep re

fun nullable :: "re \<Rightarrow> bool" where
  "nullable Never = False"
| "nullable Empty = True"
| "nullable (Cls p) = False"
| "nullable (Alt r s) = (nullable r \<or> nullable s)"
| "nullable (Seq r s) = (nullable r \<and> nullable s)"
| "nullable (Rep r) = True"

fun deriv :: "jschar \<Rightarrow> re \<Rightarrow> re" where
  "deriv c Never = Never"
| "deriv c Empty = Never"
| "deriv c (Cls p) = (if p c then Empty else Never)"
| "deriv c (Alt r s) = Alt (deriv c r) (deriv c s)"
| "deriv c (Seq r s) =
     (if nullable r then Alt (Seq (deriv c r) s) (deriv c s) else Seq (deriv c r) s)"
| "deriv c (Rep r) = Seq (deriv c r) (Rep r)"

fun matches :: "re \<Rightarrow> jsstring \<Rightarrow> bool" where
  "matches r [] = nullable r"
| "matches r (c # cs) = matches (deriv c r) cs"

text \<open>\<open>r+\<close>, \<open>r{n}\<close>, \<open>r{0,n}\<close> and \<open>r{m,n}\<close>.\<close>

definition one_or_more :: "re \<Rightarrow> re" where
  "one_or_more r = Seq r (Rep r)"

fun exactly :: "nat \<Rightarrow> re \<Rightarrow> re" where
  "exactly 0 r = Empty"
| "exactly (Suc n) r = Seq r (exactly n r)"

fun at_most :: "nat \<Rightarrow> re \<Rightarrow> re" where
  "at_most 0 r = Empty"
| "at_most (Suc n) r = Alt Empty (Seq r (at_most n r))"

definition between :: "nat \<Rightarrow> nat \<Rightarrow> re \<Rightarrow> re" where
  "between m n r = Seq (exactly m r) (at_most (n - m) r)"

section \<open>String operations\<close>

text \<open>
  \<open>input.replace(/[^0-9]+/g, '')\<close> (in \<open>isValidCpf\<close> the class is written \<open>[^\d]\<close>):
  scanning from the left, a digit is kept, and at any other code unit the longest run of
  such code units is replaced by the empty string.
\<close>

function replace_non_digits :: "jsstring \<Rightarrow> jsstring" where
  "replace_non_digits [] = []"
| "replace_non_digits (c # cs) =
     (if is_digit c then c # replace_non_digits cs
      else replace_non_digits (dropWhile (\<lambda>x. \<not> is_digit x) cs))"
  by pat_completeness auto
termination
  by (relation "measure length") (auto simp: less_Suc_eq_le length_dropWhile_le)

text \<open>
  \<open>input.replace(/^\s+|\s+$/, '')\<close>. The pattern has no flag \<open>g\<close>, so only the first
  match, the leftmost one, is replaced. At position 0 the alternative \<open>^\s+\<close> is tried
  first and takes the longest run of white space. At any position \<open>\s+$\<close> matches when
  everything from there to the end is white space.
\<close>

fun replace_trailing_space :: "jsstring \<Rightarrow> jsstring" where
  "replace_trailing_space [] = []"
| "replace_trailing_space (c # cs) =
     (if list_all is_space (c # cs) then [] else c # replace_trailing_space cs)"

definition replace_first_space :: "jsstring \<Rightarrow> jsstring" where
  "replace_first_space s =
     (case s of
        [] \<Rightarrow> []
      | c # cs \<Rightarrow> if is_space c then dropWhile is_space cs else replace_trailing_space s)"

text \<open>\<open>input.split(sep)\<close> for a separator of one code unit; the result is never empty.\<close>

fun split :: "jschar \<Rightarrow> jsstring \<Rightarrow> jsstring list" where
  "split sep [] = [[]]"
| "split sep (c # cs) =
     (if c = sep then [] # split sep cs
      else (case split sep cs of [] \<Rightarrow> [[c]] | p # ps \<Rightarrow> (c # p) # ps))"

text \<open>
  An element of an array destructured or read into a template literal: a missing
  element is \<open>undefined\<close>, which the template prints as the word.
\<close>

definition element :: "jsstring list \<Rightarrow> nat \<Rightarrow> jsstring" where
  "element parts i = (if i < length parts then parts ! i else js ''undefined'')"

text \<open>\<open>cpf.charAt(i)\<close>: the empty string when \<open>i\<close> is out of range.\<close>

definition charAt :: "jsstring \<Rightarrow> nat \<Rightarrow> jsstring" where
  "charAt s i = (if i < length s then [s ! i] else [])"

text \<open>
  \<open>parseInt(s)\<close> with no radix: leading white space is skipped, a sign is read, a prefix
  \<open>0x\<close> or \<open>0X\<close> selects base 16, and the longest prefix of digits of the base is the
  value; there being no digit, the result is \<open>NaN\<close>.
\<close>

definition digit_value :: "jschar \<Rightarrow> int" where
  "digit_value c = uint c - 0x30"

definition is_hex_digit :: "jschar \<Rightarrow> bool" where
  "is_hex_digit c =
     (is_digit c \<or> (0x61 \<le> c \<and> c \<le> 0x66) \<or> (0x41 \<le> c \<and> c \<le> 0x46))"

definition hex_value :: "jschar \<Rightarrow> int" where
  "hex_value c =
     (if is_digit c then uint c - 0x30
      else if 0x61 \<le> c \<and> c \<le> 0x66 then uint c - 0x61 + 10
      else uint c - 0x41 + 10)"

definition digits_value :: "int \<Rightarrow> (jschar \<Rightarrow> int) \<Rightarrow> jsstring \<Rightarrow> int" where
  "digits_value base val ds = foldl (\<lambda>acc c. acc * base + val c) 0 ds"

definition parse_digits :: "jsstring \<Rightarrow> jsnum" where
  "parse_digits s =
     (case s of
        a # b # rest \<Rightarrow>
          if a = 0x30 \<and> (b = 0x78 \<or> b = 0x58) then
            (let ds = takeWhile is_hex_digit rest
             in if ds = [] then NaN else Num (digits_value 16 hex_value ds))
          else
            (let ds = takeWhile is_digit s
             in if ds = [] then NaN else Num (digits_value 10 digit_value ds))
      | _ \<Rightarrow>
          (let ds = takeWhile is_digit s
           in if ds = [] then NaN else Num (digits_value 10 digit_value ds)))"

definition parseInt :: "jsstring \<Rightarrow> jsnum" where
  "parseInt s =
     (case dropWhile is_space s of
        [] \<Rightarrow> NaN
      | c # cs \<Rightarrow>
          if c = 0x2D then js_mul (Num (- 1)) (parse_digits cs)
          else if c = 0x2B then parse_digits cs
          else parse_digits (c # cs))"

section \<open>The validators\<close>

text \<open>
  The file \<open>validation-fields.ts\<close> holds the library twice. The definitions follow the
  second, longer copy, the one that has \<open>isValidCpf\<close>, \<open>isDate\<close>, the two converters and
  the test for a repeated digit in the phone validators.
\<close>

subsection \<open>isNumber\<close>

text \<open>\<open>/^[0-9]+$/.test(input)\<close>, on the string that \<open>test\<close> makes of its argument.\<close>

definition isNumber :: "jsstring \<Rightarrow> bool" where
  "isNumber input = matches (one_or_more (Cls is_digit)) input"

subsection \<open>email\<close>

definition email_filter :: re where
  "email_filter =
     Seq (one_or_more (Cls is_email_char))
       (Seq (Cls (\<lambda>c. c = 0x40))
         (Seq (one_or_more (Cls is_email_char))
           (Seq (Cls (\<lambda>c. c = 0x2E)) (between 2 4 (Cls is_alpha)))))"

definition email :: "jsstring \<Rightarrow> bool" where
  "email input = (let email = replace_first_space input in matches email_filter email)"

subsection \<open>isValidCpf\<close>

text \<open>
  The two loops \<open>for (let i = 0; i < n; i++) add += parseInt(cpf.charAt(i)) * (w - i)\<close>,
  with \<open>n = 9\<close>, \<open>w = 10\<close> and \<open>n = 10\<close>, \<open>w = 11\<close>.
\<close>

function cpf_loop :: "jsstring \<Rightarrow> nat \<Rightarrow> int \<Rightarrow> nat \<Rightarrow> jsnum \<Rightarrow> jsnum" where
  "cpf_loop cpf n w i add =
     (if i < n
      then cpf_loop cpf n w (Suc i)
             (js_add add (js_mul (parseInt (charAt cpf i)) (Num (w - int i))))
      else add)"
  by pat_completeness auto
termination
  by (relation "measure (\<lambda>(cpf, n, w, i, add). n - i)") auto

declare cpf_loop.simps [simp del]

definition cpf_rev :: "jsnum \<Rightarrow> jsnum" where
  "cpf_rev add =
     (let rev = js_sub (Num 11) (js_rem add (Num 11))
      in if js_eq rev (Num 10) \<or> js_eq rev (Num 11) then Num 0 else rev)"

definition isValidCpf :: "jsstring \<Rightarrow> bool" where
  "isValidCpf input =
     (let cpf = replace_non_digits input;
          rev = cpf_rev (cpf_loop cpf 9 10 0 (Num 0))
      in if js_neq rev (parseInt (charAt cpf 9)) then False
         else
           (let rev = cpf_rev (cpf_loop cpf 10 11 0 (Num 0))
            in if js_neq rev (parseInt (charAt cpf 10)) then False else True))"

subsection \<open>isLandline and isCellPhone\<close>

text \<open>
  \<open>/^(.)\1+$/.test(input)\<close>: a first code unit that is not a line terminator, repeated
  at least once more up to the end.
\<close>

definition areAllDigitsSame :: "jsstring \<Rightarrow> bool" where
  "areAllDigitsSame input =
     (case input of
        [] \<Rightarrow> False
      | c # cs \<Rightarrow> is_dot c \<and> cs \<noteq> [] \<and> list_all (\<lambda>x. x = c) cs)"

definition landline_regex :: re where
  "landline_regex =
     Seq (exactly 2 (Cls in_1_9))
       (Seq (exactly 1 (Cls in_2_5)) (Seq (exactly 3 (Cls is_digit)) (exactly 4 (Cls is_digit))))"

definition isLandline :: "jsstring \<Rightarrow> bool" where
  "isLandline input0 =
     (let input = replace_non_digits input0
      in if \<not> isNumber input then False
         else if areAllDigitsSame input then False
         else matches landline_regex input)"

definition cellphone_regex :: re where
  "cellphone_regex =
     Seq (exactly 2 (Cls in_1_9)) (Seq (exactly 1 (Cls in_6_9)) (exactly 8 (Cls is_digit)))"

definition isCellPhone :: "jsstring \<Rightarrow> bool" where
  "isCellPhone input0 =
     (let input = replace_non_digits input0
      in if \<not> isNumber input then False
         else if areAllDigitsSame input then False
         else matches cellphone_regex input)"

subsection \<open>Dates\<close>

text \<open>
  The date parser and the clock belong to the host, not to the library, so they are
  parameters: \<open>parse_date s\<close> is \<open>new Date(s).getTime()\<close>, \<open>NaN\<close> for an invalid date;
  \<open>now_time\<close> is \<open>now.getTime()\<close> and \<open>now_locale_time\<close> is \<open>now.toLocaleTimeString()\<close>
  for the \<open>now = new Date()\<close> of the call.
\<close>

record host =
  parse_date :: "jsstring \<Rightarrow> jsnum"
  now_time :: int
  now_locale_time :: jsstring

definition isDate :: "host \<Rightarrow> jsstring \<Rightarrow> bool" where
  "isDate h input = (parse_date h input \<noteq> NaN)"

definition date :: "host \<Rightarrow> jsstring \<Rightarrow> jsstring \<Rightarrow> bool" where
  "date h input format =
     (if format = js ''pt'' then
        (let dateBr = split 0x2F input
         in if length dateBr \<noteq> 3 then False
            else
              (let date = element dateBr 2 @ js ''-'' @ element dateBr 1 @ js ''-''
                            @ element dateBr 0;
                   dateInfo = parse_date h (date @ js '' '' @ now_locale_time h)
               in if js_gt dateInfo (Num (now_time h)) then False else True))
      else
        (let dateInfo = parse_date h (input @ js '' '' @ now_locale_time h)
         in if js_gt dateInfo (Num (now_time h)) then False else True))"

text \<open>The converters return \<open>false\<close> or a string.\<close>

datatype bool_or_string = JFalse | JString jsstring

definition formatPtBrDateToEn :: "host \<Rightarrow> jsstring \<Rightarrow> bool_or_string" where
  "formatPtBrDateToEn h input =
     (if \<not> isDate h input then JFalse
      else
        (let parts = split 0x2F input;
             day = element parts 0; month = element parts 1; year = element parts 2
         in JString (year @ js ''-'' @ month @ js ''-'' @ day)))"

definition formatEnDateToPtBr :: "host \<Rightarrow> jsstring \<Rightarrow> bool_or_string" where
  "formatEnDateToPtBr h input =
     (if \<not> isDate h input then JFalse
      else
        (let parts = split 0x2D input;
             year = element parts 0; month = element parts 1; day = element parts 2
         in JString (day @ js ''/'' @ month @ js ''/'' @ year)))"

section \<open>The specification's wording\<close>

text \<open>
  The definitions of this section follow the words of the specification, not the code;
  the theorems below compare the validators with them.
\<close>

text \<open>All digits of a string are identical.\<close>

definition all_identical :: "jsstring \<Rightarrow> bool" where
  "all_identical d = (case d of [] \<Rightarrow> True | c # cs \<Rightarrow> list_all (\<lambda>x. x = c) cs)"

text \<open>
  A fixed-line number: two digits each in 1 to 9, one digit in 2 to 5, then 3 digits, then
  4 digits, 10 digits in all.
\<close>

definition landline_spec :: "jsstring \<Rightarrow> bool" where
  "landline_spec d =
     (length d = 10 \<and> list_all in_1_9 (take 2 d) \<and> list_all in_2_5 (take 1 (drop 2 d))
      \<and> list_all is_digit (take 3 (drop 3 d)) \<and> list_all is_digit (take 4 (drop 6 d)))"

text \<open>A mobile number: two digits each in 1 to 9, one digit in 6 to 9, then 8 digits, 11 in all.\<close>

definition cellphone_spec :: "jsstring \<Rightarrow> bool" where
  "cellphone_spec d =
     (length d = 11 \<and> list_all in_1_9 (take 2 d) \<and> list_all in_6_9 (take 1 (drop 2 d))
      \<and> list_all is_digit (take 8 (drop 3 d)))"

text \<open>
  The check digits of a CPF, on the list of the values of its digits: the weighted sums,
  \<open>11 - (sum mod 11)\<close>, and 10 and 11 treated as 0.
\<close>

definition normalise :: "int \<Rightarrow> int" where
  "normalise remainder = (if remainder = 10 \<or> remainder = 11 then 0 else remainder)"

definition first_check :: "int list \<Rightarrow> int" where
  "first_check digit = normalise (11 - (\<Sum>i\<leftarrow>[0..<9]. digit ! i * (10 - int i)) mod 11)"

definition second_check :: "int list \<Rightarrow> int" where
  "second_check digit = normalise (11 - (\<Sum>i\<leftarrow>[0..<10]. digit ! i * (11 - int i)) mod 11)"

definition cpf_spec :: "int list \<Rightarrow> bool" where
  "cpf_spec digit = (first_check digit = digit ! 9 \<and> second_check digit = digit ! 10)"

text \<open>A \<open>DD/MM/YYYY\<close> string: two digits, a slash, two digits, a slash, four digits.\<close>

definition is_dd_mm_yyyy :: "jsstring \<Rightarrow> bool" where
  "is_dd_mm_yyyy s =
     (length s = 10 \<and> list_all is_digit (take 2 s) \<and> s ! 2 = 0x2F
      \<and> list_all is_digit (take 2 (drop 3 s)) \<and> s ! 5 = 0x2F \<and> list_all is_digit (drop 6 s))"

section \<open>Matching: what the derivatives accept\<close>

lemma matches_Never: "matches Never s = False"
  by (induction s) simp_all

lemma matches_Empty: "matches Empty s = (s = [])"
  by (cases s) (simp_all add: matches_Never)

lemma matches_Cls: "matches (Cls p) s = (\<exists>c. s = [c] \<and> p c)"
  by (cases s) (auto simp: matches_Never matches_Empty)

lemma matches_Alt: "matches (Alt r t) s = (matches r s \<or> matches t s)"
  by (induction s arbitrary: r t) simp_all

lemma matches_Seq: "matches (Seq r t) s = (\<exists>u v. s = u @ v \<and> matches r u \<and> matches t v)"
proof (induction s arbitrary: r t)
  case Nil
  then show ?case by simp
next
  case (Cons c s)
  have split_app: "(\<exists>u v. c # s = u @ v \<and> matches r u \<and> matches t v) =
      ((nullable r \<and> matches t (c # s)) \<or> (\<exists>u v. s = u @ v \<and> matches (deriv c r) u \<and> matches t v))"
    (is "?L = ?R")
  proof
    assume ?L
    then obtain u v where uv: "c # s = u @ v" "matches r u" "matches t v" by blast
    show ?R
    proof (cases u)
      case Nil
      with uv show ?thesis by simp
    next
      case (Cons a u')
      with uv have "s = u' @ v" "matches (deriv c r) u'" by simp_all
      with uv(3) show ?thesis by blast
    qed
  next
    assume ?R
    then show ?L
    proof
      assume "nullable r \<and> matches t (c # s)"
      then have "c # s = [] @ (c # s) \<and> matches r [] \<and> matches t (c # s)" by simp
      then show ?L by blast
    next
      assume "\<exists>u v. s = u @ v \<and> matches (deriv c r) u \<and> matches t v"
      then obtain u v where "s = u @ v" "matches (deriv c r) u" "matches t v" by blast
      then have "c # s = (c # u) @ v \<and> matches r (c # u) \<and> matches t v" by simp
      then show ?L by blast
    qed
  qed
  show ?case
    by (auto simp: split_app matches_Alt Cons.IH)
qed

lemma matches_Seq_Empty: "matches (Seq Empty r) s = matches r s"
  by (simp add: matches_Seq matches_Empty)

lemma matches_Seq_Never: "matches (Seq Never r) s = False"
  by (simp add: matches_Seq matches_Never)

lemma matches_Cls_Seq_Nil: "matches (Seq (Cls p) r) [] = False"
  by simp

lemma matches_Cls_Seq_Cons: "matches (Seq (Cls p) r) (c # t) = (p c \<and> matches r t)"
  by (simp add: matches_Seq_Empty matches_Seq_Never)

lemma matches_Rep_Cls: "matches (Rep (Cls p)) s = list_all p s"
proof (induction s)
  case Nil
  then show ?case by simp
next
  case (Cons c s)
  have "matches (Rep (Cls p)) (c # s) = (p c \<and> matches (Rep (Cls p)) s)"
    by (simp add: matches_Seq_Empty matches_Seq_Never)
  with Cons show ?case by simp
qed

lemma matches_one_or_more_Cls:
  "matches (one_or_more (Cls p)) s = (s \<noteq> [] \<and> list_all p s)"
proof (cases s)
  case Nil
  then show ?thesis by (simp add: one_or_more_def)
next
  case (Cons c t)
  then show ?thesis
    unfolding one_or_more_def matches_Cls_Seq_Cons matches_Rep_Cls Cons by simp
qed

lemma matches_exactly_Cls:
  "matches (exactly n (Cls p)) s = (length s = n \<and> list_all p s)"
proof (induction n arbitrary: s)
  case 0
  show ?case by (auto simp: matches_Empty)
next
  case (Suc n)
  show ?case
  proof (cases s)
    case Nil
    then show ?thesis by simp
  next
    case (Cons c t)
    have "matches (exactly (Suc n) (Cls p)) (c # t) = (p c \<and> matches (exactly n (Cls p)) t)"
      unfolding exactly.simps matches_Cls_Seq_Cons ..
    then show ?thesis unfolding Cons Suc.IH by auto
  qed
qed

lemma matches_at_most_Cls:
  "matches (at_most n (Cls p)) s = (length s \<le> n \<and> list_all p s)"
proof (induction n arbitrary: s)
  case 0
  show ?case by (auto simp: matches_Empty)
next
  case (Suc n)
  show ?case
  proof (cases s)
    case Nil
    then show ?thesis by simp
  next
    case (Cons c t)
    have "matches (at_most (Suc n) (Cls p)) (c # t) = (p c \<and> matches (at_most n (Cls p)) t)"
      unfolding at_most.simps matches_Alt matches_Cls_Seq_Cons by (simp add: matches_Never)
    then show ?thesis unfolding Cons Suc.IH by auto
  qed
qed

lemma matches_between_Cls:
  "m \<le> n \<Longrightarrow> matches (between m n (Cls p)) s = (m \<le> length s \<and> length s \<le> n \<and> list_all p s)"
  apply (simp add: between_def matches_Seq matches_exactly_Cls matches_at_most_Cls)
  apply (rule iffI)
   apply (auto)[1]
  apply (rule exI [of _ "take m s"], rule exI [of _ "drop m s"])
  apply (auto simp: list_all_iff dest: in_set_takeD in_set_dropD)
  done

lemma exactly_prefix:
  "(\<exists>u v. s = u @ v \<and> (length u = n \<and> P u) \<and> Q v)
     = (n \<le> length s \<and> P (take n s) \<and> Q (drop n s))"
  apply (rule iffI)
   apply auto[1]
  apply (rule exI [of _ "take n s"], rule exI [of _ "drop n s"])
  apply auto
  done

lemma isNumber_iff: "isNumber s = (s \<noteq> [] \<and> list_all is_digit s)"
  by (simp add: isNumber_def matches_one_or_more_Cls)

lemma replace_non_digits_filter: "replace_non_digits s = filter is_digit s"
proof (induction s rule: replace_non_digits.induct)
  case 1
  then show ?case by simp
next
  case (2 c cs)
  have "filter is_digit (dropWhile (\<lambda>x. \<not> is_digit x) cs) = filter is_digit cs"
    by (induction cs) simp_all
  with 2 show ?case by simp
qed

section \<open>isNumber\<close>

text \<open>
  C6. \<open>isNumber\<close> is true exactly for the strings of one or more ASCII digits: the string
  is not empty and each of its code units is one of \<open>0\<close> to \<open>9\<close>, so no sign, decimal
  point or white space passes. \<open>isNumber("007")\<close> is true; \<open>isNumber("-1")\<close>,
  \<open>isNumber("1.5")\<close> and \<open>isNumber("")\<close> are false.
\<close>

theorem isNumber_one_or_more_digits:
  "(isNumber s = (s \<noteq> [] \<and> list_all (\<lambda>c. 0x30 \<le> c \<and> c \<le> 0x39) s))
   \<and> isNumber (js ''007'') \<and> \<not> isNumber (js ''-1'') \<and> \<not> isNumber (js ''1.5'')
   \<and> \<not> isNumber (js '''')"
proof -
  have general: "isNumber s = (s \<noteq> [] \<and> list_all (\<lambda>c. 0x30 \<le> c \<and> c \<le> 0x39) s)"
    unfolding isNumber_iff by (simp add: list_all_iff is_digit_def)
  have "isNumber (js ''007'')"
    by (simp add: isNumber_iff js_def is_digit_def)
  moreover have "\<not> isNumber (js ''-1'')"
    by (simp add: isNumber_iff js_def is_digit_def)
  moreover have "\<not> isNumber (js ''1.5'')"
    by (simp add: isNumber_iff js_def is_digit_def)
  moreover have "\<not> isNumber (js '''')"
    by (simp add: isNumber_iff js_def)
  ultimately show ?thesis using general by blast
qed

theorem isNumber_one_or_more_digits_witness:
  "isNumber (js ''2024'') \<and> \<not> isNumber (js '' 7'')"
  using isNumber_one_or_more_digits [of "js ''2024''"] isNumber_one_or_more_digits [of "js '' 7''"]
  by (simp add: js_def)

section \<open>isLandline and isCellPhone\<close>

lemma matches_landline_regex: "matches landline_regex s = landline_spec s"
proof -
  have three: "Suc (Suc (Suc 0)) = 3" by simp
  show ?thesis
    unfolding landline_regex_def matches_Seq matches_exactly_Cls exactly_prefix landline_spec_def
    by (auto simp: three)
qed

lemma matches_cellphone_regex: "matches cellphone_regex s = cellphone_spec s"
proof -
  have three: "Suc (Suc (Suc 0)) = 3" by simp
  show ?thesis
    unfolding cellphone_regex_def matches_Seq matches_exactly_Cls exactly_prefix cellphone_spec_def
    by (auto simp: three)
qed

lemma is_digit_is_dot: "is_digit c \<Longrightarrow> is_dot c"
  unfolding is_digit_def is_dot_def by auto

lemma areAllDigitsSame_iff:
  "list_all is_digit d \<Longrightarrow> 2 \<le> length d \<Longrightarrow> areAllDigitsSame d = all_identical d"
  by (cases d) (auto simp: areAllDigitsSame_def all_identical_def is_digit_is_dot)

lemma isLandline_iff:
  "isLandline input =
     (let d = filter is_digit input in isNumber d \<and> \<not> all_identical d \<and> landline_spec d)"
proof -
  define d where "d = filter is_digit input"
  have digits: "list_all is_digit d" by (simp add: d_def list_all_iff)
  have "isLandline input = (isNumber d \<and> \<not> areAllDigitsSame d \<and> landline_spec d)"
    by (auto simp: isLandline_def Let_def replace_non_digits_filter d_def matches_landline_regex)
  moreover have "landline_spec d \<Longrightarrow> areAllDigitsSame d = all_identical d"
    using digits by (intro areAllDigitsSame_iff) (simp_all add: landline_spec_def)
  ultimately show ?thesis unfolding Let_def d_def [symmetric] by blast
qed

lemma isCellPhone_iff:
  "isCellPhone input =
     (let d = filter is_digit input in isNumber d \<and> \<not> all_identical d \<and> cellphone_spec d)"
proof -
  define d where "d = filter is_digit input"
  have digits: "list_all is_digit d" by (simp add: d_def list_all_iff)
  have "isCellPhone input = (isNumber d \<and> \<not> areAllDigitsSame d \<and> cellphone_spec d)"
    by (auto simp: isCellPhone_def Let_def replace_non_digits_filter d_def matches_cellphone_regex)
  moreover have "cellphone_spec d \<Longrightarrow> areAllDigitsSame d = all_identical d"
    using digits by (intro areAllDigitsSame_iff) (simp_all add: cellphone_spec_def)
  ultimately show ?thesis unfolding Let_def d_def [symmetric] by blast
qed

lemmas phone_eval =
  isNumber_iff all_identical_def js_def is_digit_def landline_spec_def cellphone_spec_def
  in_1_9_def in_2_5_def in_6_9_def

text \<open>
  C5. \<open>isLandline\<close> keeps the digits of its input and is true exactly when what remains
  passes \<open>isNumber\<close>, is not one digit repeated, and has the shape of a fixed-line number:
  two digits in 1 to 9, one digit in 2 to 5, then 3 digits, then 4 digits, 10 in all.
  \<open>isLandline("11999999999")\<close> is false, \<open>isLandline("1133334444")\<close> is true and
  \<open>isLandline("1111111111")\<close> is false.
\<close>

theorem isLandline_spec:
  "(isLandline input =
      (let d = filter is_digit input in isNumber d \<and> \<not> all_identical d \<and> landline_spec d))
   \<and> \<not> isLandline (js ''11999999999'') \<and> isLandline (js ''1133334444'')
   \<and> \<not> isLandline (js ''1111111111'')"
proof -
  have "\<not> isLandline (js ''11999999999'')"
    by (simp add: isLandline_iff js_def is_digit_def landline_spec_def)
  moreover have "isLandline (js ''1133334444'')"
    by (simp add: isLandline_iff phone_eval)
  moreover have "\<not> isLandline (js ''1111111111'')"
    by (simp add: isLandline_iff phone_eval)
  ultimately show ?thesis using isLandline_iff [of input] by blast
qed

theorem isLandline_spec_witness:
  "isLandline (js ''(11) 3333-4444'') \<and> \<not> isLandline (js ''(11) 3333-444'')"
  using isLandline_spec [of "js ''(11) 3333-4444''"] isLandline_spec [of "js ''(11) 3333-444''"]
  by (simp add: phone_eval)

text \<open>
  C10. No input is accepted by both \<open>isLandline\<close> and \<open>isCellPhone\<close>: after the digits are
  kept, the first pattern accepts 10 digits only and the second 11 digits only.
\<close>

theorem isLandline_isCellPhone_exclusive:
  "\<not> (isLandline input \<and> isCellPhone input)"
proof
  assume both: "isLandline input \<and> isCellPhone input"
  then have "landline_spec (filter is_digit input)"
    by (simp add: isLandline_iff Let_def)
  then have "length (filter is_digit input) = 10"
    by (simp add: landline_spec_def)
  moreover from both have "cellphone_spec (filter is_digit input)"
    by (simp add: isCellPhone_iff Let_def)
  then have "length (filter is_digit input) = 11"
    by (simp add: cellphone_spec_def)
  ultimately show False by simp
qed

theorem isLandline_isCellPhone_exclusive_witness:
  "(isLandline (js ''1133334444'') \<and> \<not> isCellPhone (js ''1133334444''))
   \<and> (isCellPhone (js ''11988887777'') \<and> \<not> isLandline (js ''11988887777''))"
proof -
  have "isLandline (js ''1133334444'')"
    by (simp add: isLandline_iff phone_eval)
  moreover have "isCellPhone (js ''11988887777'')"
    by (simp add: isCellPhone_iff phone_eval)
  ultimately show ?thesis
    using isLandline_isCellPhone_exclusive [of "js ''1133334444''"]
      isLandline_isCellPhone_exclusive [of "js ''11988887777''"]
    by blast
qed

section \<open>isValidCpf\<close>

lemma is_digit_unat: "is_digit c = (48 \<le> unat c \<and> unat c \<le> 57)"
  by (simp add: is_digit_def word_le_nat_alt)

lemma is_digit_not_space: "is_digit c \<Longrightarrow> \<not> is_space c"
  by (auto simp: is_digit_def is_space_def word_le_nat_alt)

lemma digit_value_range: "is_digit c \<Longrightarrow> 0 \<le> digit_value c \<and> digit_value c \<le> 9"
  by (simp add: is_digit_def digit_value_def word_le_def)

lemma parseInt_digit: "is_digit c \<Longrightarrow> parseInt [c] = Num (digit_value c)"
proof -
  assume d: "is_digit c"
  then have "c \<noteq> 0x2D" "c \<noteq> 0x2B" by (auto simp: is_digit_def)
  moreover have "parse_digits [c] = Num (digit_value c)"
    using d by (simp add: parse_digits_def digits_value_def)
  ultimately show ?thesis
    using is_digit_not_space [OF d] by (simp add: parseInt_def)
qed

lemma parseInt_empty: "parseInt [] = NaN"
  by (simp add: parseInt_def)

lemma cpf_loop_sum:
  "n \<le> length cpf \<Longrightarrow> list_all is_digit cpf \<Longrightarrow>
   cpf_loop cpf n w i (Num a) = Num (a + (\<Sum>j\<leftarrow>[i..<n]. digit_value (cpf ! j) * (w - int j)))"
proof (induction "n - i" arbitrary: i a)
  case 0
  then show ?case by (simp add: cpf_loop.simps [of cpf n w i])
next
  case (Suc k)
  then have less: "i < n" by simp
  with Suc.prems have "is_digit (cpf ! i)" "i < length cpf" by (simp_all add: list_all_length)
  then have step: "parseInt (charAt cpf i) = Num (digit_value (cpf ! i))"
    by (simp add: charAt_def parseInt_digit)
  have "k = n - Suc i" using Suc.hyps(2) by simp
  from Suc.hyps(1) [OF this Suc.prems, of "a + digit_value (cpf ! i) * (w - int i)"]
  show ?case
    using less by (simp add: cpf_loop.simps [of cpf n w i] step upt_conv_Cons)
qed

lemma cpf_rev_Num: "0 \<le> a \<Longrightarrow> cpf_rev (Num a) = Num (normalise (11 - a mod 11))"
  by (cases "a = 0") (simp_all add: cpf_rev_def normalise_def Let_def)

lemma weighted_sum_nonneg:
  assumes "list_all is_digit cpf" "n \<le> length cpf" "int n \<le> w"
  shows "0 \<le> (\<Sum>j\<leftarrow>[0..<n]. digit_value (cpf ! j) * (w - int j))"
proof (rule sum_list_nonneg)
  fix x
  assume "x \<in> set (map (\<lambda>j. digit_value (cpf ! j) * (w - int j)) [0..<n])"
  then obtain j where j: "j < n" "x = digit_value (cpf ! j) * (w - int j)" by auto
  with assms have "is_digit (cpf ! j)" by (simp add: list_all_length)
  then have "0 \<le> digit_value (cpf ! j)" using digit_value_range by blast
  moreover from j assms have "0 \<le> w - int j" by simp
  ultimately show "0 \<le> x" using j by simp
qed

lemma weighted_sum_map:
  "n \<le> length cpf \<Longrightarrow>
   (\<Sum>j\<leftarrow>[0..<n]. map digit_value cpf ! j * (w - int j))
     = (\<Sum>j\<leftarrow>[0..<n]. digit_value (cpf ! j) * (w - int j))"
  by (rule arg_cong [where f = sum_list], rule map_cong) simp_all

lemma cpf_check:
  assumes "list_all is_digit cpf" "n \<le> length cpf" "int n \<le> w"
  shows "cpf_rev (cpf_loop cpf n w 0 (Num 0))
           = Num (normalise (11 - (\<Sum>j\<leftarrow>[0..<n]. map digit_value cpf ! j * (w - int j)) mod 11))"
  using assms
  by (simp add: cpf_loop_sum cpf_rev_Num weighted_sum_nonneg weighted_sum_map)

lemma isValidCpf_digits:
  assumes "11 \<le> length (filter is_digit input)"
  shows "isValidCpf input = cpf_spec (map digit_value (filter is_digit input))"
proof -
  define cpf where "cpf = filter is_digit input"
  have digits: "list_all is_digit cpf" by (simp add: cpf_def list_all_iff)
  have len: "11 \<le> length cpf" using assms by (simp add: cpf_def)
  have c1: "cpf_rev (cpf_loop cpf 9 10 0 (Num 0)) = Num (first_check (map digit_value cpf))"
    using cpf_check [OF digits, of 9 10] len by (simp add: first_check_def)
  have c2: "cpf_rev (cpf_loop cpf 10 11 0 (Num 0)) = Num (second_check (map digit_value cpf))"
    using cpf_check [OF digits, of 10 11] len by (simp add: second_check_def)
  have "is_digit (cpf ! 9)" "is_digit (cpf ! 10)"
    using digits len by (simp_all add: list_all_length)
  then have p9: "parseInt (charAt cpf 9) = Num (map digit_value cpf ! 9)"
    and p10: "parseInt (charAt cpf 10) = Num (map digit_value cpf ! 10)"
    using len by (simp_all add: charAt_def parseInt_digit)
  show ?thesis
    unfolding isValidCpf_def replace_non_digits_filter cpf_def [symmetric] Let_def c1 c2 p9 p10
    by (auto simp: js_neq_def cpf_spec_def)
qed

lemma js_neq_NaN: "js_neq a NaN"
  by (cases a) (simp_all add: js_neq_def)

lemma isValidCpf_short:
  assumes "length (filter is_digit input) < 11"
  shows "isValidCpf input = False"
proof -
  define cpf where "cpf = filter is_digit input"
  have "length cpf < 10 \<or> length cpf = 10" using assms by (auto simp: cpf_def)
  then show ?thesis
  proof
    assume "length cpf < 10"
    then have "parseInt (charAt cpf 9) = NaN" by (simp add: charAt_def parseInt_empty)
    then show ?thesis
      unfolding isValidCpf_def replace_non_digits_filter cpf_def [symmetric] Let_def
      by (simp add: js_neq_NaN)
  next
    assume "length cpf = 10"
    then have "parseInt (charAt cpf 10) = NaN" by (simp add: charAt_def parseInt_empty)
    then show ?thesis
      unfolding isValidCpf_def replace_non_digits_filter cpf_def [symmetric] Let_def
      by (simp add: js_neq_NaN)
  qed
qed

lemma cpf_spec_replicate:
  assumes "0 \<le> v" "v \<le> 9"
  shows "cpf_spec (replicate 11 v)"
proof -
  have s1: "(\<Sum>i\<leftarrow>[0..<9]. replicate 11 v ! i * (10 - int i)) = 54 * v"
    by (simp add: upt_rec)
  have s2: "(\<Sum>i\<leftarrow>[0..<10]. replicate 11 v ! i * (11 - int i)) = 65 * v"
    by (simp add: upt_rec)
  from assms have "v = 0 \<or> v = 1 \<or> v = 2 \<or> v = 3 \<or> v = 4 \<or> v = 5 \<or> v = 6 \<or> v = 7 \<or> v = 8 \<or> v = 9"
    by arith
  then show ?thesis
    unfolding cpf_spec_def first_check_def second_check_def s1 s2 normalise_def
    by (elim disjE) simp_all
qed

lemma isValidCpf_replicate: "is_digit c \<Longrightarrow> isValidCpf (replicate 11 c)"
proof -
  assume d: "is_digit c"
  then have f: "filter is_digit (replicate 11 c) = replicate 11 c" by simp
  show ?thesis
    using cpf_spec_replicate [of "digit_value c"] digit_value_range [OF d]
    by (simp add: isValidCpf_digits f)
qed

lemmas cpf_eval =
  js_def is_digit_def digit_value_def cpf_spec_def first_check_def second_check_def
  normalise_def upt_rec

text \<open>
  C1. When at least 11 digits remain after the other characters are removed,
  \<open>isValidCpf\<close> is true exactly when both check digits match: the first check value,
  \<open>11 - ((sum of digit[i] * (10 - i) for i in [0, 9)) mod 11)\<close> with 10 and 11 made 0,
  equals \<open>digit[9]\<close>, and the second, with weights \<open>11 - i\<close> for \<open>i\<close> in \<open>[0, 10)\<close>,
  equals \<open>digit[10]\<close>.
\<close>

theorem isValidCpf_check_digits:
  assumes "11 \<le> length (filter is_digit input)"
  shows "isValidCpf input = cpf_spec (map digit_value (filter is_digit input))"
  using assms by (rule isValidCpf_digits)

theorem isValidCpf_check_digits_witness:
  "11 \<le> length (filter is_digit (js ''111.444.777-35''))
   \<and> isValidCpf (js ''111.444.777-35'') \<and> \<not> isValidCpf (js ''111.444.777-36'')"
proof -
  have l1: "11 \<le> length (filter is_digit (js ''111.444.777-35''))"
    by (simp add: js_def is_digit_def)
  have l2: "11 \<le> length (filter is_digit (js ''111.444.777-36''))"
    by (simp add: js_def is_digit_def)
  have "cpf_spec (map digit_value (filter is_digit (js ''111.444.777-35'')))"
    by (simp add: cpf_eval)
  moreover have "\<not> cpf_spec (map digit_value (filter is_digit (js ''111.444.777-36'')))"
    by (simp add: cpf_eval)
  ultimately show ?thesis
    using isValidCpf_check_digits [OF l1] isValidCpf_check_digits [OF l2] l1 by blast
qed

text \<open>
  C8. \<open>isValidCpf\<close> does not reject a digit repeated 11 times: \<open>"00000000000"\<close> passes
  both comparisons, and so does the 11-fold repetition of any other digit.
\<close>

theorem isValidCpf_repeated_digit:
  "isValidCpf (js ''00000000000'') \<and> (\<forall>c. is_digit c \<longrightarrow> isValidCpf (replicate 11 c))"
proof -
  have d: "is_digit 0x30" by (simp add: is_digit_def)
  have "replicate 11 (0x30 :: jschar) = js ''00000000000''"
    by (simp add: js_def eval_nat_numeral)
  with isValidCpf_replicate [OF d] have "isValidCpf (js ''00000000000'')" by simp
  then show ?thesis using isValidCpf_replicate by blast
qed

theorem isValidCpf_repeated_digit_witness:
  "is_digit 0x37 \<and> isValidCpf (js ''77777777777'')"
proof -
  have d: "is_digit 0x37" by (simp add: is_digit_def)
  have "replicate 11 (0x37 :: jschar) = js ''77777777777''"
    by (simp add: js_def eval_nat_numeral)
  with d show ?thesis using isValidCpf_repeated_digit by metis
qed

text \<open>
  C9. When fewer than 11 digits remain (none at all included), \<open>isValidCpf\<close> is false:
  the character read past the end is the empty string, it parses to \<open>NaN\<close>, and \<open>NaN\<close>
  differs from every check value, so one of the two comparisons returns false.
\<close>

theorem isValidCpf_too_short:
  assumes "length (filter is_digit input) < 11"
  shows "isValidCpf input = False
         \<and> parseInt (charAt (replace_non_digits input) 10) = NaN
         \<and> (\<forall>rev. js_neq rev NaN)"
proof -
  have "isValidCpf input = False" using assms by (rule isValidCpf_short)
  moreover have "parseInt (charAt (replace_non_digits input) 10) = NaN"
    using assms by (simp add: replace_non_digits_filter charAt_def parseInt_empty)
  ultimately show ?thesis using js_neq_NaN by blast
qed

theorem isValidCpf_too_short_witness:
  "length (filter is_digit (js ''111.444.777'')) < 11 \<and> \<not> isValidCpf (js ''111.444.777'')
   \<and> \<not> isValidCpf (js '''') \<and> \<not> isValidCpf (js ''1114447773'')"
proof -
  have l1: "length (filter is_digit (js ''111.444.777'')) < 11"
    by (simp add: js_def is_digit_def)
  have l2: "length (filter is_digit (js '''')) < 11"
    by (simp add: js_def)
  have l3: "length (filter is_digit (js ''1114447773'')) < 11"
    by (simp add: js_def is_digit_def)
  show ?thesis
    using isValidCpf_too_short [OF l1] isValidCpf_too_short [OF l2]
      isValidCpf_too_short [OF l3] l1
    by blast
qed

section \<open>email\<close>

lemma matches_SeqI: "matches r u \<Longrightarrow> matches t v \<Longrightarrow> matches (Seq r t) (u @ v)"
  unfolding matches_Seq by blast

lemma matches_between_2_4:
  "matches (between 2 4 (Cls p)) s = (2 \<le> length s \<and> length s \<le> 4 \<and> list_all p s)"
  by (rule matches_between_Cls) simp

lemma email_filter_last:
  assumes "matches email_filter s"
  shows "s \<noteq> [] \<and> is_alpha (last s)"
proof -
  from assms obtain u w where s: "s = u @ w" and w: "matches (between 2 4 (Cls is_alpha)) w"
    unfolding email_filter_def matches_Seq by (metis append.assoc)
  from w have len: "2 \<le> length w" and alpha: "\<forall>x\<in>set w. is_alpha x"
    by (simp_all add: matches_between_2_4 list_all_iff)
  from len have ne: "w \<noteq> []" by auto
  then have "last w \<in> set w" by (rule last_in_set)
  with alpha have "is_alpha (last w)" by blast
  with s ne show ?thesis by simp
qed

lemma email_plain: "email (js ''a@b.co'')"
proof -
  have local: "matches (one_or_more (Cls is_email_char)) [0x61]"
    unfolding matches_one_or_more_Cls by (simp add: is_email_char_def is_alpha_def)
  have at: "matches (Cls (\<lambda>c. c = 0x40)) [0x40]"
    unfolding matches_Cls by simp
  have domain: "matches (one_or_more (Cls is_email_char)) [0x62]"
    unfolding matches_one_or_more_Cls by (simp add: is_email_char_def is_alpha_def)
  have dot: "matches (Cls (\<lambda>c. c = 0x2E)) [0x2E]"
    unfolding matches_Cls by simp
  have tail: "matches (between 2 4 (Cls is_alpha)) [0x63, 0x6F]"
    unfolding matches_between_2_4 by (simp add: is_alpha_def)
  have "matches email_filter ([0x61] @ [0x40] @ [0x62] @ [0x2E] @ [0x63, 0x6F])"
    unfolding email_filter_def
    by (intro matches_SeqI local at domain dot tail)
  moreover have "replace_first_space (js ''a@b.co'') = [0x61, 0x40, 0x62, 0x2E, 0x63, 0x6F]"
    by (simp add: js_def replace_first_space_def is_space_def)
  ultimately show ?thesis by (simp add: email_def)
qed

lemma email_spaces: "\<not> email (js '' a@b.co '')"
proof
  assume "email (js '' a@b.co '')"
  moreover have "replace_first_space (js '' a@b.co '') = [0x61, 0x40, 0x62, 0x2E, 0x63, 0x6F, 0x20]"
    by (simp add: js_def replace_first_space_def is_space_def)
  ultimately have "matches email_filter [0x61, 0x40, 0x62, 0x2E, 0x63, 0x6F, 0x20]"
    by (simp add: email_def)
  from email_filter_last [OF this] show False
    by (simp add: is_alpha_def)
qed

text \<open>
  C2. The claim is that \<open>email\<close> gives the same answer with and without surrounding white
  space, as for \<open>" a@b.co "\<close> and \<open>"a@b.co"\<close>. The pattern that removes the white space has
  no flag \<open>g\<close>, so only the leading run is removed when there is one: \<open>email\<close> refuses
  \<open>" a@b.co "\<close> and accepts \<open>"a@b.co"\<close>.
\<close>

theorem email_surrounding_space:
  "email (js '' a@b.co '') = False \<and> email (js ''a@b.co'') = True"
  using email_spaces email_plain by simp

section \<open>Dates\<close>

lemma split_not_Nil: "split sep s \<noteq> []"
  by (induction s) (auto split: list.splits)

lemma length_split: "length (split sep s) = Suc (length (filter (\<lambda>c. c = sep) s))"
  by (induction s) (auto split: list.splits simp: split_not_Nil)

lemma split_no_sep: "sep \<notin> set s \<Longrightarrow> split sep s = [s]"
  by (induction s) auto

lemma split_append_sep: "sep \<notin> set u \<Longrightarrow> split sep (u @ sep # v) = u # split sep v"
  by (induction u) (auto split: list.splits simp: split_not_Nil)

lemma split_three:
  assumes "sep \<notin> set a" "sep \<notin> set b" "sep \<notin> set c"
  shows "split sep (a @ sep # b @ sep # c) = [a, b, c]"
  using assms by (simp add: split_append_sep split_no_sep)

lemma is_digit_not_slash: "is_digit c \<Longrightarrow> c \<noteq> 0x2F"
  by (auto simp: is_digit_def)

lemma is_digit_not_hyphen: "is_digit c \<Longrightarrow> c \<noteq> 0x2D"
  by (auto simp: is_digit_def)

lemma dd_mm_yyyy_parts:
  assumes "is_dd_mm_yyyy s"
  shows "s = take 2 s @ 0x2F # take 2 (drop 3 s) @ 0x2F # drop 6 s"
proof -
  from assms have len: "length s = 10" and s2: "s ! 2 = 0x2F" and s5: "s ! 5 = 0x2F"
    by (simp_all add: is_dd_mm_yyyy_def)
  have "s = take 2 s @ s ! 2 # drop 3 s"
    using id_take_nth_drop [of 2 s] len by simp
  moreover have "drop 3 s = take 2 (drop 3 s) @ drop 3 s ! 2 # drop 3 (drop 3 s)"
    using id_take_nth_drop [of 2 "drop 3 s"] len by simp
  moreover have "drop 3 s ! 2 = s ! 5" using len by simp
  ultimately show ?thesis using s2 s5 by simp
qed

lemma round_trip_parts:
  assumes d: "list_all is_digit dd" and m: "list_all is_digit mm" and y: "list_all is_digit yy"
    and out: "formatPtBrDateToEn h (dd @ 0x2F # mm @ 0x2F # yy) = JString t"
    and valid: "isDate h t"
  shows "formatEnDateToPtBr h t = JString (dd @ 0x2F # mm @ 0x2F # yy)"
proof -
  have no_slash: "0x2F \<notin> set dd" "0x2F \<notin> set mm" "0x2F \<notin> set yy"
    using d m y is_digit_not_slash by (auto simp: list_all_iff)
  have no_hyphen: "0x2D \<notin> set dd" "0x2D \<notin> set mm" "0x2D \<notin> set yy"
    using d m y is_digit_not_hyphen by (auto simp: list_all_iff)
  have "split 0x2F (dd @ 0x2F # mm @ 0x2F # yy) = [dd, mm, yy]"
    using no_slash by (rule split_three)
  with out have t: "t = yy @ 0x2D # mm @ 0x2D # dd"
    by (simp add: formatPtBrDateToEn_def element_def js_def split: if_splits)
  have "split 0x2D (yy @ 0x2D # mm @ 0x2D # dd) = [yy, mm, dd]"
    using no_hyphen by (intro split_three)
  with valid t show ?thesis
    by (simp add: formatEnDateToPtBr_def element_def js_def)
qed

text \<open>
  C3. \<open>date(input, 'pt')\<close> splits the input on \<open>/\<close> and is false unless there are exactly
  3 parts; with 3 parts it parses the third, second and first part joined by \<open>-\<close>, followed
  by a space and the current time of day, and is false when the parsed moment is strictly
  after the current one, true otherwise.
\<close>

theorem date_pt:
  "date h input (js ''pt'') =
     (let parts = split 0x2F input
      in length parts = 3
         \<and> (case parse_date h (parts ! 2 @ js ''-'' @ parts ! 1 @ js ''-'' @ parts ! 0
                               @ js '' '' @ now_locale_time h) of
              NaN \<Rightarrow> True
            | Num t \<Rightarrow> \<not> now_time h < t))"
  by (simp add: date_def Let_def element_def split: jsnum.splits)

theorem date_pt_witness:
  "date \<lparr>parse_date = (\<lambda>s. if s = js ''2024-12-25 10:00:00'' then Num 1735120800000 else NaN),
         now_time = 1700000000000, now_locale_time = js ''10:00:00''\<rparr>
     (js ''25/12/2024'') (js ''pt'') = False
   \<and> date \<lparr>parse_date = (\<lambda>s. if s = js ''2024-12-25 10:00:00'' then Num 1735120800000 else NaN),
         now_time = 1800000000000, now_locale_time = js ''10:00:00''\<rparr>
     (js ''25/12/2024'') (js ''pt'') = True
   \<and> date \<lparr>parse_date = (\<lambda>s. if s = js ''2024-12-25 10:00:00'' then Num 1735120800000 else NaN),
         now_time = 1800000000000, now_locale_time = js ''10:00:00''\<rparr>
     (js ''25/12/2024/'') (js ''pt'') = False"
  unfolding date_pt by (simp add: js_def)

text \<open>
  C4. When the input splits on \<open>/\<close> into exactly 3 parts and the string built from them
  does not parse into a valid date, \<open>date(input, 'pt')\<close> is true: the comparison of the
  invalid date with the current moment is false.
\<close>

theorem date_pt_invalid_date:
  assumes "length (split 0x2F input) = 3"
    and "parse_date h (split 0x2F input ! 2 @ js ''-'' @ split 0x2F input ! 1 @ js ''-''
                       @ split 0x2F input ! 0 @ js '' '' @ now_locale_time h) = NaN"
  shows "date h input (js ''pt'') = True"
  using assms by (simp add: date_def Let_def element_def)

theorem date_pt_invalid_date_witness:
  "length (split 0x2F (js ''31/02/abcd'')) = 3
   \<and> date \<lparr>parse_date = (\<lambda>s. NaN), now_time = 1700000000000, now_locale_time = js ''10:00:00''\<rparr>
        (js ''31/02/abcd'') (js ''pt'') = True"
proof -
  have len: "length (split 0x2F (js ''31/02/abcd'')) = 3"
    by (simp add: js_def)
  show ?thesis
    using len date_pt_invalid_date [OF len,
      of "\<lparr>parse_date = (\<lambda>s. NaN), now_time = 1700000000000, now_locale_time = js ''10:00:00''\<rparr>"]
    by simp
qed

text \<open>
  C7. For a \<open>DD/MM/YYYY\<close> string \<open>s\<close> for which \<open>formatPtBrDateToEn\<close> returns a string, that
  string being accepted by \<open>isDate\<close>, \<open>formatEnDateToPtBr\<close> of it is \<open>s\<close> again.
\<close>

theorem format_round_trip:
  assumes "is_dd_mm_yyyy s"
    and "formatPtBrDateToEn h s = JString t"
    and "isDate h t"
  shows "formatEnDateToPtBr h t = JString s"
proof -
  let ?dd = "take 2 s" and ?mm = "take 2 (drop 3 s)" and ?yy = "drop 6 s"
  have parts: "s = ?dd @ 0x2F # ?mm @ 0x2F # ?yy"
    using assms(1) by (rule dd_mm_yyyy_parts)
  have digits: "list_all is_digit ?dd" "list_all is_digit ?mm" "list_all is_digit ?yy"
    using assms(1) by (simp_all add: is_dd_mm_yyyy_def)
  have "formatPtBrDateToEn h (?dd @ 0x2F # ?mm @ 0x2F # ?yy) = JString t"
    using assms(2) parts by simp
  from round_trip_parts [OF digits this assms(3)] parts show ?thesis by simp
qed

theorem format_round_trip_witness:
  "is_dd_mm_yyyy (js ''25/12/2024'')
   \<and> formatPtBrDateToEn \<lparr>parse_date = (\<lambda>s. Num 0), now_time = 0, now_locale_time = []\<rparr>
        (js ''25/12/2024'') = JString (js ''2024-12-25'')
   \<and> isDate \<lparr>parse_date = (\<lambda>s. Num 0), now_time = 0, now_locale_time = []\<rparr> (js ''2024-12-25'')
   \<and> formatEnDateToPtBr \<lparr>parse_date = (\<lambda>s. Num 0), now_time = 0, now_locale_time = []\<rparr>
        (js ''2024-12-25'') = JString (js ''25/12/2024'')"
proof -
  let ?h = "\<lparr>parse_date = (\<lambda>s. Num 0), now_time = 0, now_locale_time = []\<rparr>"
  have shape: "is_dd_mm_yyyy (js ''25/12/2024'')"
    by (simp add: is_dd_mm_yyyy_def js_def is_digit_def)
  have there: "formatPtBrDateToEn ?h (js ''25/12/2024'') = JString (js ''2024-12-25'')"
    by (simp add: formatPtBrDateToEn_def isDate_def element_def js_def)
  have valid: "isDate ?h (js ''2024-12-25'')"
    by (simp add: isDate_def)
  from format_round_trip [OF shape there valid] shape there valid show ?thesis by simp
qed

end
